theory Spec2Isabelle
  imports Main "HOL-Library.Sublist"
begin

section \<open>The parsed document\<close>

text \<open>
  \<^verbatim>\<open>gltf.data\<close> is the parsed glTF document. \<^verbatim>\<open>BlenderScene\<close> reads three of its
  attributes: \<^verbatim>\<open>scene\<close> (index of the default scene, or \<^verbatim>\<open>None\<close>), \<^verbatim>\<open>scenes\<close> and
  \<^verbatim>\<open>animations\<close> (lists, or \<^verbatim>\<open>None\<close>). Of a scene it reads \<^verbatim>\<open>nodes\<close> and \<^verbatim>\<open>extras\<close>, of an
  animation \<^verbatim>\<open>track_name\<close>. The file never assigns to the document, and the model takes
  the document as a value that stays as parsed for the whole import.
\<close>

record pyscene =
  nodes :: "int list option"
  extras :: "string option"

record pyanimation =
  track_name :: string

record gltf_data =
  scene :: "int option"
  scenes :: "pyscene list option"
  animations :: "pyanimation list option"

datatype pyerr = IndexError | TypeError | KeyError | AttributeError | RuntimeError

text \<open>Python list subscription \<^verbatim>\<open>xs[i]\<close>: a negative index counts from the end.\<close>

definition py_index :: "'a list \<Rightarrow> int \<Rightarrow> pyerr + 'a" where
  "py_index xs i =
     (if 0 \<le> i \<and> i < int (length xs) then Inr (xs ! nat i)
      else if - int (length xs) \<le> i \<and> i < 0 then Inr (xs ! nat (int (length xs) + i))
      else Inl IndexError)"

text \<open>\<^verbatim>\<open>gltf.data.scenes[gltf.data.scene]\<close>; subscripting \<^verbatim>\<open>None\<close> is a \<^verbatim>\<open>TypeError\<close>.\<close>

definition default_pyscene :: "gltf_data \<Rightarrow> int \<Rightarrow> pyerr + pyscene" where
  "default_pyscene d i = (case scenes d of None \<Rightarrow> Inl TypeError | Some ss \<Rightarrow> py_index ss i)"

section \<open>Virtual nodes\<close>

text \<open>
  Modelled from the spec: the class \<^verbatim>\<open>VNode\<close> of \<^verbatim>\<open>gltf2_blender_vnode\<close> is imported by
  \<^verbatim>\<open>gltf2_blender_scene.py\<close>, which reads the attributes \<^verbatim>\<open>type\<close>, \<^verbatim>\<open>children\<close>,
  \<^verbatim>\<open>bone_arma\<close> and \<^verbatim>\<open>blender_object\<close> of a virtual node. A node identifier is a glTF
  node index or the sentinel \<^verbatim>\<open>'root'\<close>; the kind is one of Object, Bone, DummyRoot.
  \<^verbatim>\<open>gltf.vnodes\<close> is a dictionary; it is kept as an association list in insertion order,
  which is the order \<^verbatim>\<open>gltf.vnodes.values()\<close> iterates in.
\<close>

datatype vnode_id = Root | Node int

datatype vnode_type = Object | Bone | DummyRoot

record vnode =
  vtype :: vnode_type
  children :: "vnode_id list"
  bone_arma :: "vnode_id option"
  blender_object :: "nat option"

type_synonym vnodes = "(vnode_id \<times> vnode) list"

text \<open>\<^verbatim>\<open>gltf.vnodes[k]\<close>: a missing key is a \<^verbatim>\<open>KeyError\<close>.\<close>

definition lookup_vnode :: "vnodes \<Rightarrow> vnode_id \<Rightarrow> pyerr + vnode" where
  "lookup_vnode vs k = (case map_of vs k of None \<Rightarrow> Inl KeyError | Some v \<Rightarrow> Inr v)"

section \<open>Import context and host state\<close>

text \<open>
  The mutable state of one import: the attributes of \<^verbatim>\<open>gltf\<close> that this file assigns or
  reads (\<^verbatim>\<open>vnodes\<close>, \<^verbatim>\<open>blender_scene\<close>, \<^verbatim>\<open>blender_active_collection\<close>,
  \<^verbatim>\<open>display_current_node\<close>) and the part of the host (\<^verbatim>\<open>bpy\<close>) it touches: the current
  scene's name and render engine, every other setting of the scene (\<open>scene_settings\<close>,
  opaque), the context collection's name, the names in \<^verbatim>\<open>bpy.data.collections\<close>, the
  context mode, whether \<^verbatim>\<open>bpy.ops.object.select_all.poll()\<close> succeeds, the set of selected
  objects, the active object, and the rest of the host (\<open>host_other\<close>, opaque).
  Host objects are handles (natural numbers).
\<close>

record env =
  vnodes :: vnodes
  blender_scene :: "string option"
  blender_active_collection :: "string option"
  display_current_node :: nat
  scene_name :: string
  render_engine :: string
  scene_settings :: nat
  collection_name :: string
  data_collections :: "string list"
  mode :: string
  select_all_poll :: bool
  selected :: "nat set"
  active :: "nat option"
  host_other :: nat

section \<open>Calls and the trace\<close>

text \<open>
  Every call this file makes is recorded in a trace: \<open>Call c\<close> when the call starts,
  \<open>Ret c\<close> when it returns without raising. The calls are those to collaborators
  outside the file (the user-extension dispatcher, \<^verbatim>\<open>set_extras\<close>, \<^verbatim>\<open>compute_vnodes\<close>,
  \<^verbatim>\<open>BlenderNode.create_vnode\<close>, \<^verbatim>\<open>BlenderAnimation.anim\<close> and \<^verbatim>\<open>restore_animation\<close>,
  \<^verbatim>\<open>bpy.ops.object.mode_set\<close>), to the host primitives (\<^verbatim>\<open>select_all\<close>, \<^verbatim>\<open>select_set\<close>,
  the assignment of the active object), to the static methods of \<^verbatim>\<open>BlenderScene\<close>
  itself, and the mesh regrouping block that ends \<^verbatim>\<open>create\<close>.
\<close>

datatype hook_name =
    Scene_before_hook
  | Scene_after_nodes_hook
  | Scene_after_animation_hook

datatype call =
    Import_user_extensions hook_name "pyscene option"
  | Gather_import_animations
  | Set_extras "string option"
  | Compute_vnodes
  | Create_vnode vnode_id
  | Anim nat
  | Restore_animation string
  | Mode_set
  | Select_all_deselect
  | Select_set nat
  | Set_active "nat option"
  | Create_animations
  | Select_imported_objects
  | Set_active_object
  | Regroup_meshes

datatype event = Call call | Ret call

text \<open>
  The collaborators are parameters of the model. \<open>ext h c\<close> is what the call \<open>c\<close> does
  to the state, and whether it raises. \<open>animations_hook h\<close> is the dispatch of
  \<^verbatim>\<open>gather_import_animations\<close>: it receives the options object and hands back its
  (possibly mutated) content. A collaborator reaches the document through \<open>h\<close> itself.
\<close>

record animation_options =
  restore_first_anim :: bool

record host =
  ext :: "call \<Rightarrow> env \<Rightarrow> pyerr option \<times> env"
  animations_hook :: "animation_options \<Rightarrow> env \<Rightarrow> (pyerr + animation_options) \<times> env"

type_synonym world = "event list \<times> env"

type_synonym 'a prog = "world \<Rightarrow> (pyerr + 'a) \<times> world"

definition ret :: "'a \<Rightarrow> 'a prog" where
  "ret x w = (Inr x, w)"

definition raise :: "pyerr \<Rightarrow> 'a prog" where
  "raise err w = (Inl err, w)"

definition bind :: "'a prog \<Rightarrow> ('a \<Rightarrow> 'b prog) \<Rightarrow> 'b prog" where
  "bind m f w = (case m w of (Inl err, w') \<Rightarrow> (Inl err, w') | (Inr x, w') \<Rightarrow> f x w')"

definition seq :: "unit prog \<Rightarrow> 'b prog \<Rightarrow> 'b prog" where
  "seq m n = bind m (\<lambda>_. n)"

definition lift :: "pyerr + 'a \<Rightarrow> 'a prog" where
  "lift r w = (r, w)"

definition get_env :: "env prog" where
  "get_env w = (Inr (snd w), w)"

definition modify :: "(env \<Rightarrow> env) \<Rightarrow> unit prog" where
  "modify f w = (Inr (), (fst w, f (snd w)))"

definition emit :: "event \<Rightarrow> unit prog" where
  "emit ev w = (Inr (), (fst w @ [ev], snd w))"

text \<open>A call to a collaborator: it may change the state and it may raise.\<close>

definition call_ext :: "host \<Rightarrow> call \<Rightarrow> unit prog" where
  "call_ext h c w =
     (case ext h c (snd w) of
        (Some err, e') \<Rightarrow> (Inl err, (fst w @ [Call c], e'))
      | (None, e') \<Rightarrow> (Inr (), (fst w @ [Call c, Ret c], e')))"

text \<open>\<^verbatim>\<open>import_user_extensions('gather_import_animations', gltf, gltf.data.animations, animation_options)\<close>\<close>

definition gather_import_animations :: "host \<Rightarrow> animation_options \<Rightarrow> animation_options prog" where
  "gather_import_animations h opts w =
     (case animations_hook h opts (snd w) of
        (Inl err, e') \<Rightarrow> (Inl err, (fst w @ [Call Gather_import_animations], e'))
      | (Inr opts', e') \<Rightarrow>
          (Inr opts', (fst w @ [Call Gather_import_animations, Ret Gather_import_animations], e')))"

text \<open>A host primitive whose effect on the state is known.\<close>

definition prim :: "call \<Rightarrow> (env \<Rightarrow> env) \<Rightarrow> unit prog" where
  "prim c f = seq (emit (Call c)) (seq (modify f) (emit (Ret c)))"

text \<open>A static method of \<^verbatim>\<open>BlenderScene\<close>: its body between the two trace events.\<close>

definition static_method :: "call \<Rightarrow> unit prog \<Rightarrow> unit prog" where
  "static_method c body = seq (emit (Call c)) (seq body (emit (Ret c)))"

section \<open>\<^verbatim>\<open>BlenderScene.create_animations\<close>\<close>

text \<open>
  \<^verbatim>\<open>for anim_idx in reversed(range(len(gltf.data.animations))): BlenderAnimation.anim(gltf, anim_idx)\<close>
  The loop runs over the indices it is given, in the order given.
\<close>

fun anim_loop :: "host \<Rightarrow> nat list \<Rightarrow> unit prog" where
  "anim_loop h [] = ret ()"
| "anim_loop h (i # idxs) = seq (call_ext h (Anim i)) (anim_loop h idxs)"

text \<open>Lines 134-143, with the options as the hook left them.\<close>

definition layer_animations :: "host \<Rightarrow> gltf_data \<Rightarrow> animation_options \<Rightarrow> unit prog" where
  "layer_animations h d opts =
     (case animations d of
        None \<Rightarrow> ret ()
      | Some anims \<Rightarrow>
          if anims = [] then ret ()
          else seq (anim_loop h (rev [0..<length anims]))
                 (if restore_first_anim opts
                  then call_ext h (Restore_animation (track_name (anims ! 0)))
                  else ret ()))"

definition create_animations :: "host \<Rightarrow> gltf_data \<Rightarrow> unit prog" where
  "create_animations h d =
     static_method Create_animations
       (bind (gather_import_animations h \<lparr>restore_first_anim = True\<rparr>)
          (layer_animations h d))"

section \<open>\<^verbatim>\<open>BlenderScene.select_imported_objects\<close>\<close>

text \<open>
  \<^verbatim>\<open>for vnode in gltf.vnodes.values(): if vnode.type == VNode.Object: vnode.blender_object.select_set(state=True)\<close>
  A virtual node with no host object has \<^verbatim>\<open>blender_object\<close> \<^verbatim>\<open>None\<close>, and calling a
  method of \<^verbatim>\<open>None\<close> is an \<^verbatim>\<open>AttributeError\<close>.
\<close>

fun select_loop :: "vnode list \<Rightarrow> unit prog" where
  "select_loop [] = ret ()"
| "select_loop (v # vs) =
     (if vtype v = Object then
        (case blender_object v of
           None \<Rightarrow> raise AttributeError
         | Some ob \<Rightarrow>
             seq (prim (Select_set ob) (\<lambda>e. e\<lparr>selected := insert ob (selected e)\<rparr>))
               (select_loop vs))
      else select_loop vs)"

definition select_imported_objects :: "unit prog" where
  "select_imported_objects =
     static_method Select_imported_objects
       (bind get_env (\<lambda>e.
          seq (if select_all_poll e
               then prim Select_all_deselect (\<lambda>e. e\<lparr>selected := {}\<rparr>)
               else ret ())
            (select_loop (map snd (vnodes e)))))"

section \<open>\<^verbatim>\<open>BlenderScene.set_active_object\<close>\<close>

text \<open>\<^verbatim>\<open>if pyscene.nodes: ... pyscene.nodes[0]\<close>: \<^verbatim>\<open>None\<close> and the empty list are both false.\<close>

definition first_node :: "pyscene \<Rightarrow> int option" where
  "first_node sc = (case nodes sc of None \<Rightarrow> None | Some [] \<Rightarrow> None | Some (n # ns) \<Rightarrow> Some n)"

text \<open>Lines 162-165: the default scene. The result \<open>None\<close> is \<^verbatim>\<open>vnode\<close> still \<^verbatim>\<open>None\<close>.\<close>

definition from_default_scene :: "gltf_data \<Rightarrow> vnodes \<Rightarrow> pyerr + vnode option" where
  "from_default_scene d vs =
     (case scene d of
        None \<Rightarrow> Inr None
      | Some i \<Rightarrow>
          (case default_pyscene d i of
             Inl err \<Rightarrow> Inl err
           | Inr sc \<Rightarrow>
               (case first_node sc of
                  None \<Rightarrow> Inr None
                | Some n \<Rightarrow>
                    (case lookup_vnode vs (Node n) of
                       Inl err \<Rightarrow> Inl err
                     | Inr v \<Rightarrow> Inr (Some v)))))"

text \<open>Lines 168-171: \<^verbatim>\<open>for pyscene in gltf.data.scenes or []\<close>, left by \<^verbatim>\<open>break\<close>.\<close>

fun scan_scenes :: "vnodes \<Rightarrow> pyscene list \<Rightarrow> pyerr + vnode option" where
  "scan_scenes vs [] = Inr None"
| "scan_scenes vs (sc # scs) =
     (case first_node sc of
        None \<Rightarrow> scan_scenes vs scs
      | Some n \<Rightarrow>
          (case lookup_vnode vs (Node n) of
             Inl err \<Rightarrow> Inl err
           | Inr v \<Rightarrow> Inr (Some v)))"

text \<open>Lines 174-178: the root. The result \<open>None\<close> is the \<^verbatim>\<open>return\<close> of line 177.\<close>

definition from_root :: "vnodes \<Rightarrow> pyerr + vnode option" where
  "from_root vs =
     (case lookup_vnode vs Root of
        Inl err \<Rightarrow> Inl err
      | Inr v \<Rightarrow>
          if vtype v = DummyRoot then
            (case children v of
               [] \<Rightarrow> Inr None
             | c # cs \<Rightarrow>
                 (case lookup_vnode vs c of
                    Inl err \<Rightarrow> Inl err
                  | Inr v' \<Rightarrow> Inr (Some v')))
          else Inr (Some v))"

text \<open>
  Lines 160-178. A \<^verbatim>\<open>VNode\<close> instance is true, so \<^verbatim>\<open>not vnode\<close> holds exactly while
  \<^verbatim>\<open>vnode\<close> is \<^verbatim>\<open>None\<close>. The result \<open>None\<close> is the early \<^verbatim>\<open>return\<close>.
\<close>

definition resolve_vnode :: "gltf_data \<Rightarrow> vnodes \<Rightarrow> pyerr + vnode option" where
  "resolve_vnode d vs =
     (case from_default_scene d vs of
        Inl err \<Rightarrow> Inl err
      | Inr (Some v) \<Rightarrow> Inr (Some v)
      | Inr None \<Rightarrow>
          (case scan_scenes vs (case scenes d of None \<Rightarrow> [] | Some ss \<Rightarrow> ss) of
             Inl err \<Rightarrow> Inl err
           | Inr (Some v) \<Rightarrow> Inr (Some v)
           | Inr None \<Rightarrow> from_root vs))"

text \<open>Lines 180-181. A bone whose \<^verbatim>\<open>bone_arma\<close> was never assigned has none to read.\<close>

definition arma_of_bone :: "vnodes \<Rightarrow> vnode \<Rightarrow> pyerr + vnode" where
  "arma_of_bone vs v =
     (if vtype v = Bone then
        (case bone_arma v of
           None \<Rightarrow> Inl AttributeError
         | Some a \<Rightarrow> lookup_vnode vs a)
      else Inr v)"

definition set_active_object :: "gltf_data \<Rightarrow> unit prog" where
  "set_active_object d =
     static_method Set_active_object
       (bind get_env (\<lambda>e.
          bind (lift (resolve_vnode d (vnodes e))) (\<lambda>r.
            case r of
              None \<Rightarrow> ret ()
            | Some v \<Rightarrow>
                bind (lift (arma_of_bone (vnodes e) v)) (\<lambda>v'.
                  prim (Set_active (blender_object v'))
                    (\<lambda>e. e\<lparr>active := blender_object v'\<rparr>)))))"

section \<open>\<^verbatim>\<open>BlenderScene.create\<close>\<close>

text \<open>
  Lines 64-67 and 72-75: \<^verbatim>\<open>gltf_scene\<close> is computed, then the hook is dispatched with it.
\<close>

definition scene_hook :: "host \<Rightarrow> gltf_data \<Rightarrow> hook_name \<Rightarrow> unit prog" where
  "scene_hook h d name =
     (case scene d of
        None \<Rightarrow> call_ext h (Import_user_extensions name None)
      | Some i \<Rightarrow>
          bind (lift (default_pyscene d i)) (\<lambda>sc.
            call_ext h (Import_user_extensions name (Some sc))))"

text \<open>
  The body of \<^verbatim>\<open>create\<close>, line by line. Lines 82-119 (the regrouping of mesh objects by
  the pieces of their names, with the recentring of their vertices) work on mesh data of
  the host in floating point; they are kept as one opaque call at the end.
\<close>

definition create :: "host \<Rightarrow> gltf_data \<Rightarrow> unit prog" where
  "create h d =
     seq (modify (\<lambda>e. e\<lparr>blender_scene := Some (scene_name e)\<rparr>))
    (seq (modify (\<lambda>e. if collection_name e \<in> set (data_collections e)
                       then e\<lparr>blender_active_collection := Some (collection_name e)\<rparr> else e))
    (seq (modify (\<lambda>e. if render_engine e \<notin> set [''CYCLES'', ''BLENDER_EEVEE'']
                       then e\<lparr>render_engine := ''BLENDER_EEVEE''\<rparr> else e))
    (seq (case scene d of
            None \<Rightarrow> ret ()
          | Some i \<Rightarrow>
              bind (lift (default_pyscene d i)) (\<lambda>sc.
                seq (call_ext h (Import_user_extensions Scene_before_hook (Some sc)))
                  (bind (lift (default_pyscene d i)) (\<lambda>pyscene.
                     call_ext h (Set_extras (extras pyscene))))))
    (seq (call_ext h Compute_vnodes)
    (seq (modify (\<lambda>e. e\<lparr>display_current_node := 0\<rparr>))
    (seq (call_ext h (Create_vnode Root))
    (seq (scene_hook h d Scene_after_nodes_hook)
    (seq (create_animations h d)
    (seq (scene_hook h d Scene_after_animation_hook)
    (seq (bind get_env (\<lambda>e. if mode e \<noteq> ''OBJECT'' then call_ext h Mode_set else ret ()))
    (seq select_imported_objects
    (seq (set_active_object d)
         (call_ext h Regroup_meshes)))))))))))))"

section \<open>Reading the trace\<close>

text \<open>
  \<open>traces p m ms\<close>: every run of \<open>m\<close> only appends to the trace, and the events it appends
  that satisfy \<open>p\<close> are \<open>ms\<close> when the run returns, a prefix of \<open>ms\<close> when it raises.
\<close>

definition traces :: "(event \<Rightarrow> bool) \<Rightarrow> 'a prog \<Rightarrow> event list \<Rightarrow> bool" where
  "traces p m ms =
     (\<forall>w. \<exists>evs. fst (snd (m w)) = fst w @ evs \<and>
        (case fst (m w) of
           Inr x \<Rightarrow> filter p evs = ms
         | Inl err \<Rightarrow> prefix (filter p evs) ms))"

text \<open>\<open>keeps Q m\<close>: a property of the state that holds before a run of \<open>m\<close> holds after it.\<close>

definition keeps :: "(env \<Rightarrow> bool) \<Rightarrow> 'a prog \<Rightarrow> bool" where
  "keeps Q m = (\<forall>w. Q (snd w) \<longrightarrow> Q (snd (snd (m w))))"

text \<open>The events of \<^verbatim>\<open>BlenderAnimation.anim\<close> and of \<^verbatim>\<open>BlenderAnimation.restore_animation\<close>.\<close>

fun anim_event :: "event \<Rightarrow> bool" where
  "anim_event (Call (Anim i)) = True"
| "anim_event (Ret (Anim i)) = True"
| "anim_event ev = False"

fun restore_event :: "event \<Rightarrow> bool" where
  "restore_event (Call (Restore_animation name)) = True"
| "restore_event (Ret (Restore_animation name)) = True"
| "restore_event ev = False"

definition both_events :: "event \<Rightarrow> bool" where
  "both_events ev = (anim_event ev \<or> restore_event ev)"

text \<open>The indices \<^verbatim>\<open>BlenderAnimation.anim\<close> was called with, in the order of the calls.\<close>

fun anim_call :: "event \<Rightarrow> nat option" where
  "anim_call (Call (Anim i)) = Some i"
| "anim_call ev = None"

definition anim_calls :: "event list \<Rightarrow> nat list" where
  "anim_calls evs = List.map_filter anim_call evs"

text \<open>
  Modelled from the spec: \<^verbatim>\<open>BlenderAnimation.anim\<close> is not in this file. The host's
  layering primitive stacks each newly added track on top of the earlier ones (the
  source's comment: NLA tracks are added bottom to top), so every call
  \<^verbatim>\<open>anim(gltf, i)\<close> that returns has put the track of animation \<open>i\<close> on top. The stack
  is listed bottom to top: its last element is the topmost track.
\<close>

fun track_created :: "event \<Rightarrow> nat option" where
  "track_created (Ret (Anim i)) = Some i"
| "track_created ev = None"

definition nla_tracks :: "event list \<Rightarrow> nat list" where
  "nla_tracks evs = List.map_filter track_created evs"

text \<open>What a run of successful calls leaves in the trace.\<close>

definition anim_events :: "nat list \<Rightarrow> event list" where
  "anim_events idxs = concat (map (\<lambda>i. [Call (Anim i), Ret (Anim i)]) idxs)"

definition restore_events :: "string \<Rightarrow> event list" where
  "restore_events name = [Call (Restore_animation name), Ret (Restore_animation name)]"

section \<open>Selection and the active object, as the specification words them\<close>




text \<open>
  (a) The first node listed by the designated default scene, if the document has one
  and it lists a node.
\<close>

definition default_scene_node :: "gltf_data \<Rightarrow> int option" where
  "default_scene_node d =
     (case scene d of
        None \<Rightarrow> None
      | Some i \<Rightarrow> (case default_pyscene d i of Inl err \<Rightarrow> None | Inr sc \<Rightarrow> first_node sc))"

text \<open>(c) The first child of the root.\<close>

definition root_first_child :: "vnodes \<Rightarrow> vnode_id option" where
  "root_first_child vs =
     (case map_of vs Root of
        None \<Rightarrow> None
      | Some rt \<Rightarrow> (case children rt of [] \<Rightarrow> None | c # cs \<Rightarrow> Some c))"

text \<open>
  The priority order in the words of the specification: (a) the first root node of the
  default scene; (b) else the first root node of the first scene in declaration
  order; (c) else the first child of the root; (d) else none.
\<close>

definition claimed_active_id :: "gltf_data \<Rightarrow> vnodes \<Rightarrow> vnode_id option" where
  "claimed_active_id d vs =
     (case default_scene_node d of
        Some n \<Rightarrow> Some (Node n)
      | None \<Rightarrow>
          (case (case scenes d of None \<Rightarrow> None | Some [] \<Rightarrow> None
                 | Some (sc # scs) \<Rightarrow> first_node sc) of
             Some n \<Rightarrow> Some (Node n)
           | None \<Rightarrow> root_first_child vs))"

text \<open>
  The priority order with (b) read as the loop of lines 168-171 is written: the first
  root node of the first scene, in declaration order, that lists a node at all.
\<close>

definition resolved_active_id :: "gltf_data \<Rightarrow> vnodes \<Rightarrow> vnode_id option" where
  "resolved_active_id d vs =
     (case default_scene_node d of
        Some n \<Rightarrow> Some (Node n)
      | None \<Rightarrow>
          (case filter (\<lambda>sc. first_node sc \<noteq> None)
                  (case scenes d of None \<Rightarrow> [] | Some ss \<Rightarrow> ss) of
             sc # scs \<Rightarrow> map_option Node (first_node sc)
           | [] \<Rightarrow> root_first_child vs))"

text \<open>The virtual node an identifier stands for, with the \<^verbatim>\<open>KeyError\<close> of a missing one.\<close>

definition vnode_at :: "vnodes \<Rightarrow> vnode_id option \<Rightarrow> pyerr + vnode option" where
  "vnode_at vs k =
     (case k of
        None \<Rightarrow> Inr None
      | Some k' \<Rightarrow> (case lookup_vnode vs k' of Inl err \<Rightarrow> Inl err | Inr v \<Rightarrow> Inr (Some v)))"

text \<open>
  Well-formedness of the inputs. The index of the default scene, when there is one, is
  in range. Modelled from the spec: the node \<^verbatim>\<open>'root'\<close> exists and has kind DummyRoot;
  the \<^verbatim>\<open>bone_arma\<close> of every node of kind Bone resolves to a node of kind Object.
\<close>

definition valid_default_scene :: "gltf_data \<Rightarrow> bool" where
  "valid_default_scene d =
     (case scene d of
        None \<Rightarrow> True
      | Some i \<Rightarrow> (case default_pyscene d i of Inl err \<Rightarrow> False | Inr sc \<Rightarrow> True))"

definition dummy_root :: "vnodes \<Rightarrow> bool" where
  "dummy_root vs = (case map_of vs Root of None \<Rightarrow> False | Some rt \<Rightarrow> vtype rt = DummyRoot)"

definition bones_owned :: "vnodes \<Rightarrow> bool" where
  "bones_owned vs =
     list_all (\<lambda>v. vtype v = Bone \<longrightarrow>
        (case bone_arma v of
           None \<Rightarrow> False
         | Some a \<Rightarrow> (case map_of vs a of None \<Rightarrow> False | Some va \<Rightarrow> vtype va = Object)))
       (map snd vs)"

text \<open>A document with zero nodes: no scene lists a node, and the root has no child.\<close>

definition no_scene_lists_a_node :: "gltf_data \<Rightarrow> bool" where
  "no_scene_lists_a_node d =
     list_all (\<lambda>sc. first_node sc = None) (case scenes d of None \<Rightarrow> [] | Some ss \<Rightarrow> ss)"

definition root_without_children :: "vnodes \<Rightarrow> bool" where
  "root_without_children vs =
     (case map_of vs Root of
        None \<Rightarrow> False
      | Some rt \<Rightarrow> vtype rt = DummyRoot \<and> children rt = [])"

section \<open>The phases and the hooks of \<^verbatim>\<open>create\<close>\<close>

text \<open>
  The calls made inside a phase or between two phases, which are neither a phase nor a
  scene hook; \<open>outer p\<close> says that \<open>p\<close> selects none of their events.
\<close>

fun inner_call :: "call \<Rightarrow> bool" where
  "inner_call Gather_import_animations = True"
| "inner_call (Anim i) = True"
| "inner_call (Restore_animation name) = True"
| "inner_call Mode_set = True"
| "inner_call Select_all_deselect = True"
| "inner_call (Select_set ob) = True"
| "inner_call (Set_active ob) = True"
| "inner_call Regroup_meshes = True"
| "inner_call c = False"

definition outer :: "(event \<Rightarrow> bool) \<Rightarrow> bool" where
  "outer p = (\<forall>c. inner_call c \<longrightarrow> \<not> p (Call c) \<and> \<not> p (Ret c))"

text \<open>
  The four phases of an import: the construction of the virtual-node graph
  (\<^verbatim>\<open>compute_vnodes\<close>), the materialization from the root
  (\<^verbatim>\<open>BlenderNode.create_vnode(gltf, 'root')\<close>), the creation of the animation tracks
  (\<^verbatim>\<open>create_animations\<close>), then selection and active-object resolution
  (\<^verbatim>\<open>select_imported_objects\<close>, \<^verbatim>\<open>set_active_object\<close>). \<open>phase_order\<close> is the trace of an
  import in which each phase starts after the one before it has returned.
\<close>

fun phase_call :: "call \<Rightarrow> bool" where
  "phase_call Compute_vnodes = True"
| "phase_call (Create_vnode k) = True"
| "phase_call Create_animations = True"
| "phase_call Select_imported_objects = True"
| "phase_call Set_active_object = True"
| "phase_call c = False"

fun phase_event :: "event \<Rightarrow> bool" where
  "phase_event (Call c) = phase_call c"
| "phase_event (Ret c) = phase_call c"

definition phase_order :: "event list" where
  "phase_order =
     [Call Compute_vnodes, Ret Compute_vnodes,
      Call (Create_vnode Root), Ret (Create_vnode Root),
      Call Create_animations, Ret Create_animations,
      Call Select_imported_objects, Ret Select_imported_objects,
      Call Set_active_object, Ret Set_active_object]"

text \<open>
  The scene hooks and \<^verbatim>\<open>set_extras\<close>. \<open>designated_scene d\<close> is
  \<^verbatim>\<open>gltf.data.scenes[gltf.data.scene]\<close> when the document designates a default scene and
  \<^verbatim>\<open>None\<close> when it does not; \<open>scene_hook_events gs\<close> are the hook events of an import that
  returns: the before-scene hook and the copy of the extras only for a designated
  scene, the two later hooks always, with \<open>gs\<close> as their scene argument.
\<close>

fun hook_call :: "call \<Rightarrow> bool" where
  "hook_call (Import_user_extensions name gs) = True"
| "hook_call (Set_extras x) = True"
| "hook_call c = False"

fun hook_event :: "event \<Rightarrow> bool" where
  "hook_event (Call c) = hook_call c"
| "hook_event (Ret c) = hook_call c"

definition designated_scene :: "gltf_data \<Rightarrow> pyerr + pyscene option" where
  "designated_scene d =
     (case scene d of
        None \<Rightarrow> Inr None
      | Some i \<Rightarrow> (case default_pyscene d i of Inl err \<Rightarrow> Inl err | Inr sc \<Rightarrow> Inr (Some sc)))"

definition scene_hook_events :: "pyscene option \<Rightarrow> event list" where
  "scene_hook_events gs =
     (case gs of
        None \<Rightarrow> []
      | Some sc \<Rightarrow>
          [Call (Import_user_extensions Scene_before_hook (Some sc)),
           Ret (Import_user_extensions Scene_before_hook (Some sc)),
           Call (Set_extras (extras sc)), Ret (Set_extras (extras sc))]) @
     [Call (Import_user_extensions Scene_after_nodes_hook gs),
      Ret (Import_user_extensions Scene_after_nodes_hook gs),
      Call (Import_user_extensions Scene_after_animation_hook gs),
      Ret (Import_user_extensions Scene_after_animation_hook gs)]"

text \<open>
  The settings of the host scene, and a host whose collaborators leave them alone.
\<close>

definition scene_is :: "string \<Rightarrow> nat \<Rightarrow> string \<Rightarrow> env \<Rightarrow> bool" where
  "scene_is eng st nm s = (render_engine s = eng \<and> scene_settings s = st \<and> scene_name s = nm)"

definition host_keeps_scene :: "host \<Rightarrow> bool" where
  "host_keeps_scene h =
     (\<forall>eng st nm s. scene_is eng st nm s \<longrightarrow>
        (\<forall>c. scene_is eng st nm (snd (ext h c s))) \<and>
        (\<forall>opts. scene_is eng st nm (snd (animations_hook h opts s))))"

section \<open>Concrete inputs\<close>

text \<open>
  A host whose collaborators return without raising and change nothing, with a hook
  that leaves the options as it got them; and one whose hook clears
  \<^verbatim>\<open>restore_first_anim\<close>.
\<close>

definition host_ok :: host where
  "host_ok = \<lparr>ext = (\<lambda>c e. (None, e)), animations_hook = (\<lambda>opts e. (Inr opts, e))\<rparr>"

definition host_no_restore :: host where
  "host_no_restore =
     \<lparr>ext = (\<lambda>c e. (None, e)),
      animations_hook = (\<lambda>opts e. (Inr (opts\<lparr>restore_first_anim := False\<rparr>), e))\<rparr>"

definition env0 :: env where
  "env0 = \<lparr>vnodes = [], blender_scene = None, blender_active_collection = None,
           display_current_node = 0, scene_name = ''Scene'', render_engine = ''BLENDER_WORKBENCH'',
           scene_settings = 0, collection_name = ''Collection'', data_collections = [''Collection''],
           mode = ''OBJECT'', select_all_poll = True, selected = {}, active = None, host_other = 0\<rparr>"

definition doc_three_animations :: gltf_data where
  "doc_three_animations =
     \<lparr>scene = None, scenes = None,
      animations = Some [\<lparr>track_name = ''A0''\<rparr>, \<lparr>track_name = ''A1''\<rparr>, \<lparr>track_name = ''A2''\<rparr>]\<rparr>"


text \<open>An armature object (host object 1) with one bone.\<close>

definition env_armature :: env where
  "env_armature =
     env0\<lparr>vnodes := [(Root, \<lparr>vtype = DummyRoot, children = [Node 0], bone_arma = None,
                             blender_object = None\<rparr>),
                       (Node 0, \<lparr>vtype = Object, children = [Node 1], bone_arma = None,
                               blender_object = Some 1\<rparr>),
                       (Node 1, \<lparr>vtype = Bone, children = [], bone_arma = Some (Node 0),
                               blender_object = None\<rparr>)],
          selected := {7}\<rparr>"

text \<open>
  Two scenes, no default scene: the first lists no node, the second lists node 1.
  Nodes 0 and 1 are both children of the root.
\<close>

definition doc_second_scene :: gltf_data where
  "doc_second_scene =
     \<lparr>scene = None,
      scenes = Some [\<lparr>nodes = Some [], extras = None\<rparr>, \<lparr>nodes = Some [1], extras = None\<rparr>],
      animations = None\<rparr>"

definition env_two_roots :: env where
  "env_two_roots =
     env0\<lparr>vnodes := [(Root, \<lparr>vtype = DummyRoot, children = [Node 0, Node 1], bone_arma = None,
                             blender_object = None\<rparr>),
                       (Node 0, \<lparr>vtype = Object, children = [], bone_arma = None,
                               blender_object = Some 10\<rparr>),
                       (Node 1, \<lparr>vtype = Object, children = [], bone_arma = None,
                               blender_object = Some 11\<rparr>)]\<rparr>"

text \<open>A default scene whose first root node is the bone of \<open>env_armature\<close>.\<close>

definition doc_bone_root :: gltf_data where
  "doc_bone_root =
     \<lparr>scene = Some 0, scenes = Some [\<lparr>nodes = Some [1], extras = None\<rparr>], animations = None\<rparr>"

text \<open>A document with two scenes and no node; object 5 is active before the import.\<close>

definition doc_no_nodes :: gltf_data where
  "doc_no_nodes =
     \<lparr>scene = Some 0, scenes = Some [\<lparr>nodes = None, extras = None\<rparr>, \<lparr>nodes = Some [], extras = None\<rparr>],
      animations = None\<rparr>"

definition env_no_nodes :: env where
  "env_no_nodes =
     env0\<lparr>vnodes := [(Root, \<lparr>vtype = DummyRoot, children = [], bone_arma = None,
                             blender_object = None\<rparr>)],
          active := Some 5\<rparr>"

section \<open>Rules for traces\<close>

lemma tracesD:
  assumes "traces p m ms" and "m (lg, e) = (r, (lg', e'))"
  shows "\<exists>evs. lg' = lg @ evs \<and> prefix (filter p evs) ms \<and> ((\<exists>x. r = Inr x) \<longrightarrow> filter p evs = ms)"
proof -
  from assms(1) obtain evs where
    "fst (snd (m (lg, e))) = fst (lg, e) @ evs"
    "(case fst (m (lg, e)) of Inr x \<Rightarrow> filter p evs = ms | Inl err \<Rightarrow> prefix (filter p evs) ms)"
    unfolding traces_def by blast
  with assms(2) show ?thesis
    by (cases r) auto
qed

lemma traces_ret: "traces p (ret x) []"
  by (simp add: traces_def ret_def)

lemma traces_raise: "traces p (raise err) ms"
  by (simp add: traces_def raise_def)

lemma traces_lift: "traces p (lift r) []"
  by (cases r) (simp_all add: traces_def lift_def)

lemma traces_get_env: "traces p get_env []"
  by (simp add: traces_def get_env_def)

lemma traces_modify: "traces p (modify f) []"
  by (simp add: traces_def modify_def)

lemma traces_emit: "traces p (emit ev) (filter p [ev])"
  by (simp add: traces_def emit_def)

lemma traces_call_ext: "traces p (call_ext h c) (filter p [Call c, Ret c])"
  unfolding traces_def
proof
  fix w :: world
  obtain r e' where x: "ext h c (snd w) = (r, e')" by (cases "ext h c (snd w)")
  show "\<exists>evs. fst (snd (call_ext h c w)) = fst w @ evs \<and>
        (case fst (call_ext h c w) of Inr x \<Rightarrow> filter p evs = filter p [Call c, Ret c]
         | Inl err \<Rightarrow> prefix (filter p evs) (filter p [Call c, Ret c]))"
    using x by (cases r) (auto simp: call_ext_def)
qed

lemma traces_bind:
  assumes m: "traces p m a" and f: "\<And>x. traces p (f x) b"
  shows "traces p (bind m f) (a @ b)"
  unfolding traces_def
proof
  fix w :: world
  obtain r w' where mw: "m w = (r, w')" by (cases "m w")
  from m obtain evs where evs: "fst w' = fst w @ evs"
    "(case r of Inr x \<Rightarrow> filter p evs = a | Inl err \<Rightarrow> prefix (filter p evs) a)"
    unfolding traces_def using mw by (metis fst_conv snd_conv)
  show "\<exists>evs. fst (snd (bind m f w)) = fst w @ evs \<and>
        (case fst (bind m f w) of Inr x \<Rightarrow> filter p evs = a @ b
         | Inl err \<Rightarrow> prefix (filter p evs) (a @ b))"
  proof (cases r)
    case (Inl err)
    with mw evs show ?thesis
      by (auto simp: bind_def intro: prefix_prefix)
  next
    case (Inr x)
    from f[of x] obtain evs' where evs': "fst (snd (f x w')) = fst w' @ evs'"
      "(case fst (f x w') of Inr y \<Rightarrow> filter p evs' = b | Inl err \<Rightarrow> prefix (filter p evs') b)"
      unfolding traces_def by blast
    have "fst (snd (bind m f w)) = fst w @ (evs @ evs')"
      using mw Inr evs evs' by (simp add: bind_def)
    moreover have "(case fst (bind m f w) of Inr x \<Rightarrow> filter p (evs @ evs') = a @ b
         | Inl err \<Rightarrow> prefix (filter p (evs @ evs')) (a @ b))"
      using mw Inr evs evs' by (cases "fst (f x w')") (auto simp: bind_def)
    ultimately show ?thesis by blast
  qed
qed

lemma traces_seq:
  "traces p m a \<Longrightarrow> traces p n b \<Longrightarrow> traces p (seq m n) (a @ b)"
  unfolding seq_def by (rule traces_bind)

lemma traces_weaken: "traces p m a \<Longrightarrow> a = b \<Longrightarrow> traces p m b"
  by simp

lemma traces_prim: "traces p (prim c f) (filter p [Call c, Ret c])"
  unfolding prim_def
  by (rule traces_weaken, rule traces_seq[OF traces_emit traces_seq[OF traces_modify traces_emit]]) simp

lemma traces_static_method:
  "traces p body b \<Longrightarrow> traces p (static_method c body) (filter p [Call c] @ b @ filter p [Ret c])"
  unfolding static_method_def
  by (rule traces_seq[OF traces_emit traces_seq[OF _ traces_emit]])

lemma traces_anim_loop:
  "traces p (anim_loop h idxs) (filter p (concat (map (\<lambda>i. [Call (Anim i), Ret (Anim i)]) idxs)))"
proof (induction idxs)
  case Nil
  show ?case by (simp add: traces_ret)
next
  case (Cons i idxs)
  show ?case
    by (rule traces_weaken, simp only: anim_loop.simps, rule traces_seq[OF traces_call_ext Cons.IH]) simp
qed

lemma filter_anim_events:
  "filter anim_event (anim_events idxs) = anim_events idxs"
  "filter restore_event (anim_events idxs) = []"
  by (induction idxs) (simp_all add: anim_events_def)

lemma anim_calls_anim_events: "anim_calls (anim_events idxs) = idxs"
  by (induction idxs) (simp_all add: anim_events_def anim_calls_def List.map_filter_simps)

lemma nla_tracks_anim_events: "nla_tracks (anim_events idxs) = idxs"
  by (induction idxs) (simp_all add: anim_events_def nla_tracks_def List.map_filter_simps)

lemma map_filter_append: "List.map_filter f (xs @ ys) = List.map_filter f xs @ List.map_filter f ys"
  by (simp add: List.map_filter_def)

lemma prefix_map_filter: "prefix xs ys \<Longrightarrow> prefix (List.map_filter f xs) (List.map_filter f ys)"
  by (auto simp: prefix_def map_filter_append)

lemma anim_calls_filter: "anim_calls (filter anim_event evs) = anim_calls evs"
proof (induction evs)
  case Nil
  show ?case by simp
next
  case (Cons ev evs)
  then show ?case
    by (cases ev rule: anim_event.cases) (simp_all add: anim_calls_def List.map_filter_simps)
qed

lemma nla_tracks_filter: "nla_tracks (filter anim_event evs) = nla_tracks evs"
proof (induction evs)
  case Nil
  show ?case by simp
next
  case (Cons ev evs)
  then show ?case
    by (cases ev rule: anim_event.cases) (simp_all add: nla_tracks_def List.map_filter_simps)
qed

lemma traces_layer_anim:
  assumes "animations d = Some anims" and "anims \<noteq> []"
  shows "traces anim_event (layer_animations h d opts) (anim_events (rev [0..<length anims]))"
proof -
  have r: "traces anim_event
      (if restore_first_anim opts then call_ext h (Restore_animation (track_name (anims ! 0))) else ret ()) []"
    using traces_call_ext[of anim_event h "Restore_animation (track_name (anims ! 0))"]
    by (simp add: traces_ret)
  have "traces anim_event (layer_animations h d opts)
      (filter anim_event (anim_events (rev [0..<length anims])) @ [])"
    using assms unfolding layer_animations_def anim_events_def
    by (simp only: option.case if_False) (rule traces_seq[OF traces_anim_loop r])
  then show ?thesis by (simp add: filter_anim_events)
qed

lemma traces_gather:
  "traces p (gather_import_animations h opts)
     (filter p [Call Gather_import_animations, Ret Gather_import_animations])"
  unfolding traces_def
proof
  fix w :: world
  obtain r e' where x: "animations_hook h opts (snd w) = (r, e')"
    by (cases "animations_hook h opts (snd w)")
  show "\<exists>evs. fst (snd (gather_import_animations h opts w)) = fst w @ evs \<and>
        (case fst (gather_import_animations h opts w) of
           Inr x \<Rightarrow> filter p evs = filter p [Call Gather_import_animations, Ret Gather_import_animations]
         | Inl err \<Rightarrow> prefix (filter p evs)
              (filter p [Call Gather_import_animations, Ret Gather_import_animations]))"
    using x by (cases r) (auto simp: gather_import_animations_def)
qed

lemma traces_call_quiet:
  "\<not> p (Call c) \<Longrightarrow> \<not> p (Ret c) \<Longrightarrow> traces p (call_ext h c) []"
  using traces_call_ext[of p h c] by simp

lemma traces_prim_quiet:
  "\<not> p (Call c) \<Longrightarrow> \<not> p (Ret c) \<Longrightarrow> traces p (prim c f) []"
  using traces_prim[of p c f] by simp

lemma traces_if:
  "traces p m a \<Longrightarrow> traces p n a \<Longrightarrow> traces p (if c then m else n) a"
  by simp

lemma traces_anim_loop_quiet:
  assumes "\<And>i. \<not> p (Call (Anim i))" and "\<And>i. \<not> p (Ret (Anim i))"
  shows "traces p (anim_loop h idxs) []"
  using traces_anim_loop[of p h idxs] assms by (induction idxs) simp_all

lemma traces_layer_both:
  assumes "animations d = Some anims" and "anims \<noteq> []"
  shows "traces both_events (layer_animations h d opts)
           (anim_events (rev [0..<length anims]) @
            (if restore_first_anim opts then restore_events (track_name (anims ! 0)) else []))"
proof -
  have both: "filter both_events (anim_events idxs) = anim_events idxs" for idxs
    by (induction idxs) (simp_all add: anim_events_def both_events_def)
  have r: "traces both_events
      (if restore_first_anim opts then call_ext h (Restore_animation (track_name (anims ! 0))) else ret ())
      (if restore_first_anim opts then restore_events (track_name (anims ! 0)) else [])"
    using traces_call_ext[of both_events h "Restore_animation (track_name (anims ! 0))"]
    by (simp add: traces_ret restore_events_def both_events_def)
  have "traces both_events (layer_animations h d opts)
      (filter both_events (anim_events (rev [0..<length anims])) @
       (if restore_first_anim opts then restore_events (track_name (anims ! 0)) else []))"
    using assms unfolding layer_animations_def anim_events_def
    by (simp only: option.case if_False) (rule traces_seq[OF traces_anim_loop r])
  then show ?thesis by (simp only: both)
qed

lemma traces_layer_restore:
  assumes "animations d = Some anims" and "anims \<noteq> []"
  shows "traces restore_event (layer_animations h d opts)
           (if restore_first_anim opts then restore_events (track_name (anims ! 0)) else [])"
proof -
  have r: "traces restore_event
      (if restore_first_anim opts then call_ext h (Restore_animation (track_name (anims ! 0))) else ret ())
      (if restore_first_anim opts then restore_events (track_name (anims ! 0)) else [])"
    using traces_call_ext[of restore_event h "Restore_animation (track_name (anims ! 0))"]
    by (simp add: traces_ret restore_events_def)
  have "traces restore_event (layer_animations h d opts)
      ([] @ (if restore_first_anim opts then restore_events (track_name (anims ! 0)) else []))"
    using assms unfolding layer_animations_def
    by (simp only: option.case if_False)
       (rule traces_seq[OF traces_anim_loop_quiet r], simp_all)
  then show ?thesis by simp
qed

lemma traces_layer_quiet:
  assumes "\<And>i. \<not> p (Call (Anim i))" and "\<And>i. \<not> p (Ret (Anim i))"
    and "\<And>n. \<not> p (Call (Restore_animation n))" and "\<And>n. \<not> p (Ret (Restore_animation n))"
  shows "traces p (layer_animations h d opts) []"
proof (cases "animations d")
  case None
  then show ?thesis by (simp add: layer_animations_def traces_ret)
next
  case (Some anims)
  show ?thesis
  proof (cases "anims = []")
    case True
    with Some show ?thesis by (simp add: layer_animations_def traces_ret)
  next
    case False
    have r: "traces p
      (if restore_first_anim opts then call_ext h (Restore_animation (track_name (anims ! 0))) else ret ()) []"
      using assms(3,4) by (simp add: traces_ret traces_call_quiet)
    have "traces p (layer_animations h d opts) ([] @ [])"
      using Some False unfolding layer_animations_def
      by (simp only: option.case if_False)
         (rule traces_seq[OF traces_anim_loop_quiet r], simp_all add: assms)
    then show ?thesis by simp
  qed
qed

lemma traces_create_animations_anim:
  assumes "animations d = Some anims" and "anims \<noteq> []"
  shows "traces anim_event (create_animations h d) (anim_events (rev [0..<length anims]))"
proof -
  have "traces anim_event (create_animations h d)
     (filter anim_event [Call Create_animations] @
      (filter anim_event [Call Gather_import_animations, Ret Gather_import_animations] @
       anim_events (rev [0..<length anims])) @
      filter anim_event [Ret Create_animations])"
    unfolding create_animations_def
    by (rule traces_static_method, rule traces_bind[OF traces_gather], rule traces_layer_anim[OF assms])
  then show ?thesis by simp
qed

lemma create_animations_run:
  assumes "animations_hook h \<lparr>restore_first_anim = True\<rparr> e = (Inr opts, e1)"
  shows "create_animations h d (lg, e) =
     (case layer_animations h d opts
             (lg @ [Call Create_animations, Call Gather_import_animations,
                    Ret Gather_import_animations], e1) of
        (Inl err, w) \<Rightarrow> (Inl err, w)
      | (Inr x, w) \<Rightarrow> (Inr (), (fst w @ [Ret Create_animations], snd w)))"
  using assms
  by (simp add: create_animations_def static_method_def seq_def bind_def emit_def
      gather_import_animations_def split: prod.splits sum.splits)

section \<open>Animation layering\<close>

text \<open>
  Claim C1. For a document with \<open>N > 0\<close> animations, \<^verbatim>\<open>create_animations\<close> calls
  \<^verbatim>\<open>BlenderAnimation.anim\<close> with the indices \<open>N-1, N-2, ..., 1, 0\<close>, once each and in this
  order: in every run the calls made are a prefix of this sequence, and in a run that
  returns they are the whole sequence. The call for index 0 is then the last one, and
  the track of animation 0 is the last one stacked, that is the topmost.
\<close>

theorem create_animations_reverse_order:
  assumes "animations d = Some anims" and "anims \<noteq> []"
    and "create_animations h d (lg, e) = (r, (lg', e'))"
  shows "\<exists>evs. lg' = lg @ evs \<and>
           prefix (anim_calls evs) (rev [0..<length anims]) \<and>
           (r = Inr () \<longrightarrow>
              anim_calls evs = rev [0..<length anims] \<and>
              nla_tracks evs = rev [0..<length anims] \<and>
              last (anim_calls evs) = 0 \<and> last (nla_tracks evs) = 0)"
proof -
  let ?idxs = "rev [0..<length anims]"
  from tracesD[OF traces_create_animations_anim[OF assms(1,2)] assms(3)]
  obtain evs where evs: "lg' = lg @ evs"
    "prefix (filter anim_event evs) (anim_events ?idxs)"
    "(\<exists>x. r = Inr x) \<longrightarrow> filter anim_event evs = anim_events ?idxs"
    by blast
  have "prefix (anim_calls (filter anim_event evs)) (anim_calls (anim_events ?idxs))"
    unfolding anim_calls_def by (rule prefix_map_filter[OF evs(2)])
  then have p: "prefix (anim_calls evs) ?idxs"
    by (simp add: anim_calls_filter anim_calls_anim_events)
  have l: "last ?idxs = 0"
    using assms(2) by (cases anims) (simp_all add: last_rev upt_conv_Cons del: upt_Suc)
  have "anim_calls evs = ?idxs \<and> nla_tracks evs = ?idxs" if "r = Inr ()"
  proof -
    from that evs(3) have f: "filter anim_event evs = anim_events ?idxs" by simp
    have "anim_calls (filter anim_event evs) = ?idxs" "nla_tracks (filter anim_event evs) = ?idxs"
      by (simp_all only: f anim_calls_anim_events nla_tracks_anim_events)
    then show ?thesis by (simp add: anim_calls_filter nla_tracks_filter)
  qed
  with evs(1) p l show ?thesis by auto
qed

theorem create_animations_reverse_order_witness:
  "anim_calls (fst (snd (create_animations host_ok doc_three_animations ([], env0)))) = [2, 1, 0] \<and>
   last (nla_tracks (fst (snd (create_animations host_ok doc_three_animations ([], env0))))) = 0"
proof -
  obtain r lg' e' where run: "create_animations host_ok doc_three_animations ([], env0) = (r, (lg', e'))"
    by (metis prod.exhaust)
  have "fst (create_animations host_ok doc_three_animations ([], env0)) = Inr ()"
    by code_simp
  with run have ok: "r = Inr ()" by simp
  have a: "animations doc_three_animations =
      Some [\<lparr>track_name = ''A0''\<rparr>, \<lparr>track_name = ''A1''\<rparr>, \<lparr>track_name = ''A2''\<rparr>]"
    by (simp add: doc_three_animations_def)
  from create_animations_reverse_order[OF a _ run] ok
  obtain evs where "lg' = [] @ evs" "anim_calls evs = [2, 1, 0]" "last (nla_tracks evs) = 0"
    by (auto simp: numeral_eq_Suc)
  with run show ?thesis by simp
qed

text \<open>
  Claim C3. With a non-empty animation list and the options as they are when the
  layering starts: if \<^verbatim>\<open>restore_first_anim\<close> is true, a run that returns has called
  \<^verbatim>\<open>restore_animation\<close> once, with the track name of the animation of index 0, after all
  the calls of \<^verbatim>\<open>anim\<close>; if it is false, no run calls \<^verbatim>\<open>restore_animation\<close> at all.
  (With an empty or absent animation list there is no track 0, and lines 134-143 do
  nothing: \<open>layer_animations_def\<close>.)
\<close>

theorem restore_first_after_tracks:
  assumes "animations d = Some anims" and "anims \<noteq> []"
    and "layer_animations h d opts (lg, e) = (r, (lg', e'))"
  shows "\<exists>evs. lg' = lg @ evs \<and>
           (if restore_first_anim opts
            then r = Inr () \<longrightarrow>
                   filter both_events evs =
                     anim_events (rev [0..<length anims]) @ restore_events (track_name (anims ! 0))
            else filter restore_event evs = [] \<and>
                 (r = Inr () \<longrightarrow> filter both_events evs = anim_events (rev [0..<length anims])))"
proof -
  from tracesD[OF traces_layer_both[OF assms(1,2)] assms(3)]
  obtain evs where evs: "lg' = lg @ evs"
    "(\<exists>x. r = Inr x) \<longrightarrow> filter both_events evs =
        anim_events (rev [0..<length anims]) @
        (if restore_first_anim opts then restore_events (track_name (anims ! 0)) else [])"
    by blast
  from tracesD[OF traces_layer_restore[OF assms(1,2)] assms(3)]
  obtain evs' where evs': "lg' = lg @ evs'"
    "prefix (filter restore_event evs')
        (if restore_first_anim opts then restore_events (track_name (anims ! 0)) else [])"
    by blast
  from evs(1) evs'(1) have "evs' = evs" by simp
  with evs evs'(2) show ?thesis by (cases "restore_first_anim opts") auto
qed

theorem restore_first_after_tracks_witness:
  "filter both_events
     (fst (snd (layer_animations host_ok doc_three_animations \<lparr>restore_first_anim = True\<rparr> ([], env0)))) =
   [Call (Anim 2), Ret (Anim 2), Call (Anim 1), Ret (Anim 1), Call (Anim 0), Ret (Anim 0),
    Call (Restore_animation ''A0''), Ret (Restore_animation ''A0'')] \<and>
   filter restore_event
     (fst (snd (layer_animations host_ok doc_three_animations \<lparr>restore_first_anim = False\<rparr> ([], env0)))) = []"
proof -
  let ?anims = "[\<lparr>track_name = ''A0''\<rparr>, \<lparr>track_name = ''A1''\<rparr>, \<lparr>track_name = ''A2''\<rparr>]"
  have a: "animations doc_three_animations = Some ?anims"
    by (simp add: doc_three_animations_def)
  obtain r lg' e' where run:
    "layer_animations host_ok doc_three_animations \<lparr>restore_first_anim = True\<rparr> ([], env0) = (r, (lg', e'))"
    by (metis prod.exhaust)
  have "fst (layer_animations host_ok doc_three_animations \<lparr>restore_first_anim = True\<rparr> ([], env0)) = Inr ()"
    by code_simp
  with run have ok: "r = Inr ()" by simp
  from restore_first_after_tracks[OF a _ run] ok
  have t: "filter both_events lg' =
      anim_events (rev [0..<length ?anims]) @ restore_events (track_name (?anims ! 0))"
    by auto
  obtain r2 lg2 e2 where run2:
    "layer_animations host_ok doc_three_animations \<lparr>restore_first_anim = False\<rparr> ([], env0) = (r2, (lg2, e2))"
    by (metis prod.exhaust)
  from restore_first_after_tracks[OF a _ run2]
  have f: "filter restore_event lg2 = []"
    by auto
  from t f run run2 show ?thesis
    by (simp add: anim_events_def restore_events_def numeral_eq_Suc)
qed

text \<open>
  Claim C7. \<^verbatim>\<open>create_animations\<close> first dispatches the hook
  \<^verbatim>\<open>gather_import_animations\<close>, handing it an options object whose
  \<^verbatim>\<open>restore_first_anim\<close> is \<^verbatim>\<open>True\<close>; the hook is called once, before any track is made.
  The options as the hook leaves them decide the restore step: if the flag is still
  true (as when the hook does not touch it) a run that returns has called
  \<^verbatim>\<open>restore_animation\<close> for the first animation, and if the hook cleared it no run
  calls \<^verbatim>\<open>restore_animation\<close>.
\<close>

theorem hook_overrides_restore_first:
  assumes "animations_hook h \<lparr>restore_first_anim = True\<rparr> e = (Inr opts, e1)"
    and "animations d = Some anims" and "anims \<noteq> []"
    and "create_animations h d (lg, e) = (r, (lg', e'))"
  shows "\<exists>evs. lg' = lg @ [Call Create_animations, Call Gather_import_animations,
                            Ret Gather_import_animations] @ evs \<and>
           Call Gather_import_animations \<notin> set evs \<and>
           (if restore_first_anim opts
            then r = Inr () \<longrightarrow> filter restore_event evs = restore_events (track_name (anims ! 0))
            else filter restore_event evs = [])"
proof -
  let ?lg1 = "lg @ [Call Create_animations, Call Gather_import_animations, Ret Gather_import_animations]"
  obtain r1 lg2 e2 where lay: "layer_animations h d opts (?lg1, e1) = (r1, (lg2, e2))"
    by (metis prod.exhaust)
  from tracesD[OF traces_layer_restore[OF assms(2,3)] lay]
  obtain evs where evs: "lg2 = ?lg1 @ evs"
    "prefix (filter restore_event evs)
        (if restore_first_anim opts then restore_events (track_name (anims ! 0)) else [])"
    "(\<exists>x. r1 = Inr x) \<longrightarrow> filter restore_event evs =
        (if restore_first_anim opts then restore_events (track_name (anims ! 0)) else [])"
    by blast
  have q: "\<not> (\<lambda>ev. ev = Call Gather_import_animations) (Call (Anim i))"
      "\<not> (\<lambda>ev. ev = Call Gather_import_animations) (Ret (Anim i))"
      "\<not> (\<lambda>ev. ev = Call Gather_import_animations) (Call (Restore_animation n))"
      "\<not> (\<lambda>ev. ev = Call Gather_import_animations) (Ret (Restore_animation n))" for i n
    by simp_all
  from tracesD[OF traces_layer_quiet[of "\<lambda>ev. ev = Call Gather_import_animations", OF q] lay]
  obtain evs' where "lg2 = ?lg1 @ evs'" "filter (\<lambda>ev. ev = Call Gather_import_animations) evs' = []"
    by auto
  with evs(1) have g: "Call Gather_import_animations \<notin> set evs"
    by (auto simp: filter_empty_conv)
  show ?thesis
  proof (cases r1)
    case (Inl err)
    with create_animations_run[OF assms(1), of d lg] lay assms(4)
    have "lg' = lg2" "r = Inl err" by simp_all
    with evs g show ?thesis by (cases "restore_first_anim opts") auto
  next
    case (Inr x)
    with create_animations_run[OF assms(1), of d lg] lay assms(4)
    have "lg' = lg2 @ [Ret Create_animations]" by simp
    with evs g Inr show ?thesis
      by (intro exI[of _ "evs @ [Ret Create_animations]"]) auto
  qed
qed

theorem hook_overrides_restore_first_witness:
  "filter restore_event (fst (snd (create_animations host_ok doc_three_animations ([], env0)))) =
     [Call (Restore_animation ''A0''), Ret (Restore_animation ''A0'')] \<and>
   filter restore_event (fst (snd (create_animations host_no_restore doc_three_animations ([], env0)))) = []"
proof -
  let ?anims = "[\<lparr>track_name = ''A0''\<rparr>, \<lparr>track_name = ''A1''\<rparr>, \<lparr>track_name = ''A2''\<rparr>]"
  have a: "animations doc_three_animations = Some ?anims"
    by (simp add: doc_three_animations_def)
  have h1: "animations_hook host_ok \<lparr>restore_first_anim = True\<rparr> env0 = (Inr \<lparr>restore_first_anim = True\<rparr>, env0)"
    by (simp add: host_ok_def)
  have h2: "animations_hook host_no_restore \<lparr>restore_first_anim = True\<rparr> env0 =
      (Inr \<lparr>restore_first_anim = False\<rparr>, env0)"
    by (simp add: host_no_restore_def)
  obtain r lg' e' where run: "create_animations host_ok doc_three_animations ([], env0) = (r, (lg', e'))"
    by (metis prod.exhaust)
  have "fst (create_animations host_ok doc_three_animations ([], env0)) = Inr ()"
    by code_simp
  with run have ok: "r = Inr ()" by simp
  from hook_overrides_restore_first[OF h1 a _ run] ok
  have t: "filter restore_event lg' = restore_events ''A0''"
    by auto
  obtain r2 lg2 e2 where run2:
    "create_animations host_no_restore doc_three_animations ([], env0) = (r2, (lg2, e2))"
    by (metis prod.exhaust)
  from hook_overrides_restore_first[OF h2 a _ run2]
  have f: "filter restore_event lg2 = []"
    by auto
  from t f run run2 show ?thesis
    by (simp add: restore_events_def)
qed

section \<open>Selection\<close>





section \<open>The active object\<close>

lemma scan_scenes_filter:
  "scan_scenes vs ss =
     (case filter (\<lambda>sc. first_node sc \<noteq> None) ss of
        [] \<Rightarrow> Inr None
      | sc # scs \<Rightarrow> vnode_at vs (map_option Node (first_node sc)))"
  by (induction ss) (auto simp: vnode_at_def split: option.splits sum.splits)

lemma from_default_scene_node:
  "valid_default_scene d \<Longrightarrow>
   from_default_scene d vs = vnode_at vs (map_option Node (default_scene_node d))"
  by (auto simp: valid_default_scene_def from_default_scene_def default_scene_node_def vnode_at_def
      split: option.splits sum.splits)

lemma from_root_first_child:
  "dummy_root vs \<Longrightarrow> from_root vs = vnode_at vs (root_first_child vs)"
  by (auto simp: dummy_root_def from_root_def root_first_child_def vnode_at_def lookup_vnode_def
      split: option.splits sum.splits list.splits)

lemma set_active_object_run:
  "set_active_object d (lg, e) =
     (case resolve_vnode d (vnodes e) of
        Inl err \<Rightarrow> (Inl err, (lg @ [Call Set_active_object], e))
      | Inr None \<Rightarrow> (Inr (), (lg @ [Call Set_active_object, Ret Set_active_object], e))
      | Inr (Some v) \<Rightarrow>
          (case arma_of_bone (vnodes e) v of
             Inl err \<Rightarrow> (Inl err, (lg @ [Call Set_active_object], e))
           | Inr v' \<Rightarrow>
               (Inr (),
                (lg @ [Call Set_active_object, Call (Set_active (blender_object v')),
                       Ret (Set_active (blender_object v')), Ret Set_active_object],
                 e\<lparr>active := blender_object v'\<rparr>))))"
  by (simp add: set_active_object_def static_method_def seq_def bind_def emit_def get_env_def
      lift_def prim_def modify_def ret_def split: sum.splits option.splits)

lemma lookup_vnode_in: "lookup_vnode vs k = Inr v \<Longrightarrow> v \<in> set (map snd vs)"
  by (auto simp: lookup_vnode_def split: option.splits dest!: map_of_SomeD intro: rev_image_eqI)

lemma scan_scenes_in: "scan_scenes vs ss = Inr (Some v) \<Longrightarrow> v \<in> set (map snd vs)"
  by (induction ss) (auto split: option.splits sum.splits dest: lookup_vnode_in)

lemma resolve_vnode_in:
  assumes "resolve_vnode d vs = Inr (Some v)"
  shows "v \<in> set (map snd vs)"
proof -
  have a: "from_default_scene d vs = Inr (Some v) \<Longrightarrow> v \<in> set (map snd vs)"
    by (auto simp: from_default_scene_def split: option.splits sum.splits dest: lookup_vnode_in)
  have c: "from_root vs = Inr (Some v) \<Longrightarrow> v \<in> set (map snd vs)"
    by (auto simp: from_root_def split: option.splits sum.splits list.splits if_splits
        dest: lookup_vnode_in)
  from assms a c scan_scenes_in[of vs _ v] show ?thesis
    by (auto simp: resolve_vnode_def split: option.splits sum.splits)
qed

lemma py_index_in: "py_index xs i = Inr x \<Longrightarrow> x \<in> set xs"
  by (auto simp: py_index_def split: if_splits)

text \<open>
  Claim C2, as amended. For a document whose default scene index (if any) is in range
  and a graph whose root is a DummyRoot, lines 160-178 resolve the virtual node in this
  priority order: (a) the first root node of the default scene; (b) else the first
  root node of the first scene, in declaration order, that lists a node; (c) else the
  first child of the root; (d) else none. A node identifier missing from the graph is
  a \<^verbatim>\<open>KeyError\<close>.
\<close>

theorem resolve_vnode_priority:
  assumes "valid_default_scene d" and "dummy_root vs"
  shows "resolve_vnode d vs = vnode_at vs (resolved_active_id d vs)"
proof (cases "default_scene_node d")
  case (Some n)
  then show ?thesis
    using from_default_scene_node[OF assms(1), of vs]
    by (simp add: resolve_vnode_def resolved_active_id_def vnode_at_def
        split: sum.splits option.splits)
next
  case None
  let ?ss = "case scenes d of None \<Rightarrow> [] | Some ss \<Rightarrow> ss"
  have a: "from_default_scene d vs = Inr None"
    using None from_default_scene_node[OF assms(1), of vs] by (simp add: vnode_at_def)
  show ?thesis
  proof (cases "filter (\<lambda>sc. first_node sc \<noteq> None) ?ss")
    case Nil
    then show ?thesis
      using a None from_root_first_child[OF assms(2)] scan_scenes_filter[of vs ?ss]
      by (simp add: resolve_vnode_def resolved_active_id_def)
  next
    case (Cons sc scs)
    then have "sc \<in> set (filter (\<lambda>sc. first_node sc \<noteq> None) ?ss)" by simp
    then obtain n where n: "first_node sc = Some n" by auto
    show ?thesis
      using a None Cons n scan_scenes_filter[of vs ?ss]
      by (simp add: resolve_vnode_def resolved_active_id_def vnode_at_def
          split: sum.splits option.splits)
  qed
qed

theorem resolve_vnode_priority_witness:
  "resolve_vnode doc_second_scene (vnodes env_two_roots) =
     Inr (Some \<lparr>vtype = Object, children = [], bone_arma = None, blender_object = Some 11\<rparr>)"
proof -
  have v: "valid_default_scene doc_second_scene"
    by (simp add: valid_default_scene_def doc_second_scene_def)
  have r: "dummy_root (vnodes env_two_roots)"
    by (simp add: dummy_root_def env_two_roots_def)
  have i: "resolved_active_id doc_second_scene (vnodes env_two_roots) = Some (Node 1)"
    by (simp add: resolved_active_id_def default_scene_node_def doc_second_scene_def first_node_def)
  show ?thesis
    using resolve_vnode_priority[OF v r] i
    by (simp add: vnode_at_def lookup_vnode_def env_two_roots_def)
qed

text \<open>
  The claim as stated fails on a document whose first scene lists no node while a
  later one does: by (b) and (c) as stated the first child of the root (node 0, host
  object 10) would become active; the code takes node 1 of the second scene (host
  object 11).
\<close>

theorem first_scene_without_nodes_is_skipped:
  "claimed_active_id doc_second_scene (vnodes env_two_roots) = Some (Node 0) \<and>
   resolve_vnode doc_second_scene (vnodes env_two_roots) = Inr (map_of (vnodes env_two_roots) (Node 1)) \<and>
   map_of (vnodes env_two_roots) (Node 1) \<noteq> map_of (vnodes env_two_roots) (Node 0) \<and>
   active (snd (snd (set_active_object doc_second_scene ([], env_two_roots)))) = Some 11"
  by (simp add: claimed_active_id_def default_scene_node_def root_first_child_def
      doc_second_scene_def env_two_roots_def first_node_def resolve_vnode_def
      from_default_scene_def lookup_vnode_def set_active_object_def static_method_def
      seq_def bind_def emit_def get_env_def lift_def prim_def modify_def arma_of_bone_def)

text \<open>
  Claim C5. When the resolved virtual node has kind Bone, \<^verbatim>\<open>set_active_object\<close> makes
  the host object of the node named by the bone's \<^verbatim>\<open>bone_arma\<close> active: a node of kind
  Object (the armature), not the bone. The only assignment of the active object in
  the run is that one.
\<close>

theorem bone_gives_way_to_armature:
  assumes "bones_owned (vnodes e)"
    and "resolve_vnode d (vnodes e) = Inr (Some b)" and "vtype b = Bone"
    and "set_active_object d (lg, e) = (r, (lg', e'))"
  shows "\<exists>a va. bone_arma b = Some a \<and> map_of (vnodes e) a = Some va \<and> vtype va = Object \<and>
           r = Inr () \<and> active e' = blender_object va \<and>
           lg' = lg @ [Call Set_active_object, Call (Set_active (blender_object va)),
                       Ret (Set_active (blender_object va)), Ret Set_active_object]"
proof -
  from resolve_vnode_in[OF assms(2)] have "b \<in> set (map snd (vnodes e))" .
  with assms(1,3) have c: "(case bone_arma b of
           None \<Rightarrow> False
         | Some a \<Rightarrow> (case map_of (vnodes e) a of None \<Rightarrow> False | Some va \<Rightarrow> vtype va = Object))"
    unfolding bones_owned_def list_all_iff by blast
  then obtain a where a1: "bone_arma b = Some a"
    by (cases "bone_arma b") simp_all
  with c obtain va where a2: "map_of (vnodes e) a = Some va" "vtype va = Object"
    by (cases "map_of (vnodes e) a") simp_all
  note a = a1 a2
  then have "arma_of_bone (vnodes e) b = Inr va"
    using assms(3) by (simp add: arma_of_bone_def lookup_vnode_def)
  with assms(2,4) a show ?thesis
    by (auto simp: set_active_object_run)
qed

theorem bone_gives_way_to_armature_witness:
  "active (snd (snd (set_active_object doc_bone_root ([], env_armature)))) = Some 1"
proof -
  let ?bone = "\<lparr>vtype = Bone, children = [], bone_arma = Some (Node 0), blender_object = None\<rparr>"
  have o: "bones_owned (vnodes env_armature)"
    by (simp add: bones_owned_def env_armature_def)
  have r: "resolve_vnode doc_bone_root (vnodes env_armature) = Inr (Some ?bone)"
    by (simp add: resolve_vnode_def from_default_scene_def default_pyscene_def py_index_def
        doc_bone_root_def first_node_def lookup_vnode_def env_armature_def)
  obtain res lg' e' where run: "set_active_object doc_bone_root ([], env_armature) = (res, (lg', e'))"
    by (metis prod.exhaust)
  from bone_gives_way_to_armature[OF o r _ run]
  obtain a va where "bone_arma ?bone = Some a" "map_of (vnodes env_armature) a = Some va"
      "active e' = blender_object va"
    by auto
  then have "active e' = Some 1"
    by (auto simp: env_armature_def)
  with run show ?thesis by simp
qed

text \<open>
  Claim C8. For a document with zero nodes (no scene lists a node, the root is a
  DummyRoot without children) \<^verbatim>\<open>set_active_object\<close> returns without raising, assigns no
  active object and leaves the whole state as it was.
\<close>

theorem no_nodes_no_active_object:
  assumes "valid_default_scene d" and "no_scene_lists_a_node d"
    and "root_without_children (vnodes e)"
  shows "set_active_object d (lg, e) =
           (Inr (), (lg @ [Call Set_active_object, Ret Set_active_object], e))"
proof -
  let ?ss = "case scenes d of None \<Rightarrow> [] | Some ss \<Rightarrow> ss"
  have n: "first_node sc = None" if "sc \<in> set ?ss" for sc
    using assms(2) that by (simp add: no_scene_lists_a_node_def list_all_iff)
  have a: "from_default_scene d (vnodes e) = Inr None"
  proof (cases "scene d")
    case None
    then show ?thesis by (simp add: from_default_scene_def)
  next
    case (Some i)
    with assms(1) obtain sc where sc: "default_pyscene d i = Inr sc"
      by (auto simp: valid_default_scene_def split: sum.splits)
    then have "sc \<in> set ?ss"
      by (auto simp: default_pyscene_def split: option.splits dest: py_index_in)
    with Some sc n show ?thesis by (simp add: from_default_scene_def)
  qed
  have "scan_scenes (vnodes e) ss = Inr None" if "set ss \<subseteq> set ?ss" for ss
    using that n by (induction ss) auto
  then have b: "scan_scenes (vnodes e) ?ss = Inr None" by simp
  have c: "from_root (vnodes e) = Inr None"
    using assms(3) by (auto simp: root_without_children_def from_root_def lookup_vnode_def
        split: option.splits)
  from a b c have "resolve_vnode d (vnodes e) = Inr None"
    by (simp add: resolve_vnode_def)
  then show ?thesis by (simp add: set_active_object_run)
qed

theorem no_nodes_no_active_object_witness:
  "set_active_object doc_no_nodes ([], env_no_nodes) =
     (Inr (), ([Call Set_active_object, Ret Set_active_object], env_no_nodes)) \<and>
   active env_no_nodes = Some 5"
proof -
  have v: "valid_default_scene doc_no_nodes"
    by (simp add: valid_default_scene_def doc_no_nodes_def default_pyscene_def py_index_def)
  have n: "no_scene_lists_a_node doc_no_nodes"
    by (simp add: no_scene_lists_a_node_def doc_no_nodes_def first_node_def)
  have r: "root_without_children (vnodes env_no_nodes)"
    by (simp add: root_without_children_def env_no_nodes_def)
  show ?thesis
    using no_nodes_no_active_object[OF v n r, of "[]"]
    by (simp add: env_no_nodes_def)
qed

section \<open>The order of the phases and the scene hooks\<close>

lemma outerD: "outer p \<Longrightarrow> inner_call c \<Longrightarrow> \<not> p (Call c)"
  "outer p \<Longrightarrow> inner_call c \<Longrightarrow> \<not> p (Ret c)"
  by (simp_all add: outer_def)

lemma outer_phase_event: "outer phase_event"
  unfolding outer_def
proof (intro allI impI)
  fix c assume "inner_call c"
  then show "\<not> phase_event (Call c) \<and> \<not> phase_event (Ret c)"
    by (cases c) simp_all
qed

lemma outer_hook_event: "outer hook_event"
  unfolding outer_def
proof (intro allI impI)
  fix c assume "inner_call c"
  then show "\<not> hook_event (Call c) \<and> \<not> hook_event (Ret c)"
    by (cases c) simp_all
qed

lemma traces_bind0:
  "traces p m [] \<Longrightarrow> (\<And>x. traces p (f x) []) \<Longrightarrow> traces p (bind m f) []"
  using traces_bind[of p m "[]" f "[]"] by simp

lemma traces_seq0:
  "traces p m [] \<Longrightarrow> traces p n [] \<Longrightarrow> traces p (seq m n) []"
  using traces_seq[of p m "[]" n "[]"] by simp

lemma traces_case_option:
  "traces p n a \<Longrightarrow> (\<And>x. traces p (f x) a) \<Longrightarrow>
   traces p (case r of None \<Rightarrow> n | Some x \<Rightarrow> f x) a"
  by (cases r) simp_all

lemma traces_inner_call: "outer p \<Longrightarrow> inner_call c \<Longrightarrow> traces p (call_ext h c) []"
  by (rule traces_call_quiet) (simp_all add: outerD)

lemma traces_inner_prim: "outer p \<Longrightarrow> inner_call c \<Longrightarrow> traces p (prim c f) []"
  by (rule traces_prim_quiet) (simp_all add: outerD)

lemmas quiet_rules =
  traces_bind0 traces_seq0 traces_ret traces_raise traces_lift traces_get_env traces_modify
  traces_if traces_case_option

lemma traces_select_loop:
  assumes "outer p"
  shows "traces p (select_loop vs) []"
proof (induction vs)
  case Nil
  show ?case by (simp add: traces_ret)
next
  case (Cons v vs)
  show ?case
    using Cons.IH traces_inner_prim[OF assms, of "Select_set ob" for ob]
    by (auto intro!: quiet_rules split: option.splits)
qed

lemma traces_select_imported_objects:
  assumes "outer p"
  shows "traces p select_imported_objects
           (filter p [Call Select_imported_objects, Ret Select_imported_objects])"
proof -
  have "traces p select_imported_objects
      (filter p [Call Select_imported_objects] @ [] @ filter p [Ret Select_imported_objects])"
    unfolding select_imported_objects_def
    by (rule traces_static_method)
       (intro quiet_rules traces_select_loop[OF assms] traces_inner_prim[OF assms], simp)
  then show ?thesis by auto
qed

lemma traces_set_active_object:
  assumes "outer p"
  shows "traces p (set_active_object d) (filter p [Call Set_active_object, Ret Set_active_object])"
proof -
  have "traces p (set_active_object d)
      (filter p [Call Set_active_object] @ [] @ filter p [Ret Set_active_object])"
    unfolding set_active_object_def
    by (rule traces_static_method)
       (intro quiet_rules traces_inner_prim[OF assms], simp)
  then show ?thesis by auto
qed

lemma traces_create_animations:
  assumes "outer p"
  shows "traces p (create_animations h d) (filter p [Call Create_animations, Ret Create_animations])"
proof -
  have g: "traces p (gather_import_animations h opts) []" for opts
    using traces_gather[of p h opts] outerD[OF assms, of Gather_import_animations] by simp
  have l: "traces p (layer_animations h d opts) []" for opts
    by (rule traces_layer_quiet) (simp_all add: outerD[OF assms])
  have "traces p (create_animations h d)
      (filter p [Call Create_animations] @ [] @ filter p [Ret Create_animations])"
    unfolding create_animations_def
    by (rule traces_static_method) (intro quiet_rules g l)
  then show ?thesis by auto
qed

lemma traces_lift_bind:
  assumes "\<And>x. r = Inr x \<Longrightarrow> traces p (f x) ms"
  shows "traces p (bind (lift r) f) ms"
proof (cases r)
  case (Inl err)
  then show ?thesis by (simp add: traces_def bind_def lift_def)
next
  case (Inr x)
  then have "bind (lift r) f = f x" by (simp add: bind_def lift_def fun_eq_iff)
  with assms[OF Inr] show ?thesis by simp
qed

lemma traces_mode_block:
  assumes "outer p"
  shows "traces p (bind get_env (\<lambda>e. if mode e \<noteq> ''OBJECT'' then call_ext h Mode_set else ret ())) []"
  by (intro quiet_rules traces_inner_call[OF assms]) simp

lemma traces_before_block:
  assumes "designated_scene d = Inr gs"
  shows "traces p
     (case scene d of
        None \<Rightarrow> ret ()
      | Some i \<Rightarrow>
          bind (lift (default_pyscene d i)) (\<lambda>sc.
            seq (call_ext h (Import_user_extensions Scene_before_hook (Some sc)))
              (bind (lift (default_pyscene d i)) (\<lambda>pyscene.
                 call_ext h (Set_extras (extras pyscene))))))
     (filter p (case gs of
        None \<Rightarrow> []
      | Some sc \<Rightarrow>
          [Call (Import_user_extensions Scene_before_hook (Some sc)),
           Ret (Import_user_extensions Scene_before_hook (Some sc)),
           Call (Set_extras (extras sc)), Ret (Set_extras (extras sc))]))"
proof (cases "scene d")
  case None
  with assms show ?thesis by (auto simp: designated_scene_def traces_ret)
next
  case (Some i)
  with assms obtain sc where sc: "default_pyscene d i = Inr sc" "gs = Some sc"
    by (auto simp: designated_scene_def split: sum.splits)
  let ?evs = "[Call (Import_user_extensions Scene_before_hook (Some sc)),
               Ret (Import_user_extensions Scene_before_hook (Some sc)),
               Call (Set_extras (extras sc)), Ret (Set_extras (extras sc))]"
  have "traces p
     (seq (call_ext h (Import_user_extensions Scene_before_hook (Some sc)))
        (bind (lift (Inr sc)) (\<lambda>pyscene. call_ext h (Set_extras (extras pyscene)))))
     (filter p [Call (Import_user_extensions Scene_before_hook (Some sc)),
                Ret (Import_user_extensions Scene_before_hook (Some sc))] @
      filter p [Call (Set_extras (extras sc)), Ret (Set_extras (extras sc))])"
    by (rule traces_seq[OF traces_call_ext], rule traces_lift_bind)
       (simp add: traces_call_ext del: filter.simps)
  then have a: "traces p
     (seq (call_ext h (Import_user_extensions Scene_before_hook (Some sc)))
        (bind (lift (Inr sc)) (\<lambda>pyscene. call_ext h (Set_extras (extras pyscene)))))
     (filter p ?evs)"
    by (rule traces_weaken) simp
  have "traces p
     (bind (lift (Inr sc)) (\<lambda>sc'.
        seq (call_ext h (Import_user_extensions Scene_before_hook (Some sc')))
          (bind (lift (Inr sc)) (\<lambda>pyscene. call_ext h (Set_extras (extras pyscene))))))
     (filter p ?evs)"
    using a by (intro traces_lift_bind) (simp del: filter.simps)
  with Some sc show ?thesis by (simp del: filter.simps)
qed

lemma traces_before_block_quiet:
  assumes "\<And>gs. \<not> p (Call (Import_user_extensions Scene_before_hook gs))"
    and "\<And>gs. \<not> p (Ret (Import_user_extensions Scene_before_hook gs))"
    and "\<And>x. \<not> p (Call (Set_extras x))" and "\<And>x. \<not> p (Ret (Set_extras x))"
  shows "traces p
     (case scene d of
        None \<Rightarrow> ret ()
      | Some i \<Rightarrow>
          bind (lift (default_pyscene d i)) (\<lambda>sc.
            seq (call_ext h (Import_user_extensions Scene_before_hook (Some sc)))
              (bind (lift (default_pyscene d i)) (\<lambda>pyscene.
                 call_ext h (Set_extras (extras pyscene)))))) []"
  by (intro quiet_rules traces_call_quiet assms)

lemma traces_scene_hook:
  assumes "designated_scene d = Inr gs"
  shows "traces p (scene_hook h d name)
     (filter p [Call (Import_user_extensions name gs), Ret (Import_user_extensions name gs)])"
proof (cases "scene d")
  case None
  with assms have "gs = None" by (simp add: designated_scene_def)
  with None show ?thesis
    using traces_call_ext[of p h "Import_user_extensions name None"]
    by (simp add: scene_hook_def del: filter.simps)
next
  case (Some i)
  with assms obtain sc where sc: "default_pyscene d i = Inr sc" "gs = Some sc"
    by (auto simp: designated_scene_def split: sum.splits)
  have "traces p (bind (lift (Inr sc)) (\<lambda>sc. call_ext h (Import_user_extensions name (Some sc))))
     (filter p [Call (Import_user_extensions name (Some sc)),
                Ret (Import_user_extensions name (Some sc))])"
    by (intro traces_lift_bind) (simp add: traces_call_ext del: filter.simps)
  with Some sc show ?thesis by (simp add: scene_hook_def del: filter.simps)
qed

lemma traces_scene_hook_quiet:
  assumes "\<And>gs. \<not> p (Call (Import_user_extensions name gs))"
    and "\<And>gs. \<not> p (Ret (Import_user_extensions name gs))"
  shows "traces p (scene_hook h d name) []"
  unfolding scene_hook_def
  by (intro quiet_rules traces_call_quiet assms)

lemma traces_create_phases: "traces phase_event (create h d) phase_order"
  unfolding create_def
  apply (rule traces_weaken)
   apply (rule traces_seq)
    apply (rule traces_modify)
   apply (rule traces_seq)
    apply (rule traces_modify)
   apply (rule traces_seq)
    apply (rule traces_modify)
   apply (rule traces_seq)
    apply (rule traces_before_block_quiet; simp)
   apply (rule traces_seq)
    apply (rule traces_call_ext)
   apply (rule traces_seq)
    apply (rule traces_modify)
   apply (rule traces_seq)
    apply (rule traces_call_ext)
   apply (rule traces_seq)
    apply (rule traces_scene_hook_quiet; simp)
   apply (rule traces_seq)
    apply (rule traces_create_animations[OF outer_phase_event])
   apply (rule traces_seq)
    apply (rule traces_scene_hook_quiet; simp)
   apply (rule traces_seq)
    apply (rule traces_mode_block[OF outer_phase_event])
   apply (rule traces_seq)
    apply (rule traces_select_imported_objects[OF outer_phase_event])
   apply (rule traces_seq)
    apply (rule traces_set_active_object[OF outer_phase_event])
   apply (rule traces_inner_call[OF outer_phase_event]; simp)
  apply (simp add: phase_order_def)
  done

lemma traces_create_hooks:
  assumes "designated_scene d = Inr gs"
  shows "traces hook_event (create h d) (scene_hook_events gs)"
  unfolding create_def
  apply (rule traces_weaken)
   apply (rule traces_seq)
    apply (rule traces_modify)
   apply (rule traces_seq)
    apply (rule traces_modify)
   apply (rule traces_seq)
    apply (rule traces_modify)
   apply (rule traces_seq)
    apply (rule traces_before_block[OF assms])
   apply (rule traces_seq)
    apply (rule traces_call_ext)
   apply (rule traces_seq)
    apply (rule traces_modify)
   apply (rule traces_seq)
    apply (rule traces_call_ext)
   apply (rule traces_seq)
    apply (rule traces_scene_hook[OF assms])
   apply (rule traces_seq)
    apply (rule traces_create_animations[OF outer_hook_event])
   apply (rule traces_seq)
    apply (rule traces_scene_hook[OF assms])
   apply (rule traces_seq)
    apply (rule traces_mode_block[OF outer_hook_event])
   apply (rule traces_seq)
    apply (rule traces_select_imported_objects[OF outer_hook_event])
   apply (rule traces_seq)
    apply (rule traces_set_active_object[OF outer_hook_event])
   apply (rule traces_inner_call[OF outer_hook_event]; simp)
  apply (cases gs; simp add: scene_hook_events_def)
  done

text \<open>
  Claim C6. In every import the phases run in the fixed order: graph construction,
  materialization from the root, animation track creation, selection, active-object
  resolution. The events of the phases in the trace are a prefix of \<open>phase_order\<close>, in
  which the call of a phase comes after the return of the phase before it, and they are
  the whole of \<open>phase_order\<close> when the import returns; a phase that raises ends the
  import, and no later phase starts.
\<close>

theorem create_phase_order:
  assumes "create h d (lg, e) = (r, (lg', e'))"
  shows "\<exists>evs. lg' = lg @ evs \<and>
           prefix (filter phase_event evs) phase_order \<and>
           (r = Inr () \<longrightarrow> filter phase_event evs = phase_order)"
  using tracesD[OF traces_create_phases assms] by auto

theorem create_phase_order_witness:
  "filter phase_event (fst (snd (create host_ok doc_bone_root ([], env_armature)))) =
     [Call Compute_vnodes, Ret Compute_vnodes,
      Call (Create_vnode Root), Ret (Create_vnode Root),
      Call Create_animations, Ret Create_animations,
      Call Select_imported_objects, Ret Select_imported_objects,
      Call Set_active_object, Ret Set_active_object]"
proof -
  obtain r lg' e' where run: "create host_ok doc_bone_root ([], env_armature) = (r, (lg', e'))"
    by (metis prod.exhaust)
  have "fst (create host_ok doc_bone_root ([], env_armature)) = Inr ()"
    by code_simp
  with run have ok: "r = Inr ()" by simp
  from create_phase_order[OF run] ok have "filter phase_event lg' = phase_order"
    by auto
  with run show ?thesis by (simp add: phase_order_def)
qed

text \<open>
  Claim C9. The before-scene hook is dispatched, and the extras of the default scene
  are copied, only when the document designates a default scene. For a document with
  none, the only scene-hook events of an import are those of the after-nodes hook and
  of the after-animation hook, both with \<^verbatim>\<open>None\<close> as the scene argument
  (\<open>scene_hook_events None\<close>), and both are there when the import returns.
\<close>

theorem scene_hooks_follow_default_scene:
  assumes "designated_scene d = Inr gs"
    and "create h d (lg, e) = (r, (lg', e'))"
  shows "\<exists>evs. lg' = lg @ evs \<and>
           prefix (filter hook_event evs) (scene_hook_events gs) \<and>
           (r = Inr () \<longrightarrow> filter hook_event evs = scene_hook_events gs)"
  using tracesD[OF traces_create_hooks[OF assms(1)] assms(2)] by auto

theorem scene_hooks_follow_default_scene_witness:
  "filter hook_event (fst (snd (create host_ok doc_second_scene ([], env_two_roots)))) =
     [Call (Import_user_extensions Scene_after_nodes_hook None),
      Ret (Import_user_extensions Scene_after_nodes_hook None),
      Call (Import_user_extensions Scene_after_animation_hook None),
      Ret (Import_user_extensions Scene_after_animation_hook None)] \<and>
   filter hook_event (fst (snd (create host_ok doc_bone_root ([], env_armature)))) =
     [Call (Import_user_extensions Scene_before_hook (Some \<lparr>nodes = Some [1], extras = None\<rparr>)),
      Ret (Import_user_extensions Scene_before_hook (Some \<lparr>nodes = Some [1], extras = None\<rparr>)),
      Call (Set_extras None), Ret (Set_extras None),
      Call (Import_user_extensions Scene_after_nodes_hook (Some \<lparr>nodes = Some [1], extras = None\<rparr>)),
      Ret (Import_user_extensions Scene_after_nodes_hook (Some \<lparr>nodes = Some [1], extras = None\<rparr>)),
      Call (Import_user_extensions Scene_after_animation_hook (Some \<lparr>nodes = Some [1], extras = None\<rparr>)),
      Ret (Import_user_extensions Scene_after_animation_hook (Some \<lparr>nodes = Some [1], extras = None\<rparr>))]"
proof -
  have d1: "designated_scene doc_second_scene = Inr None"
    by (simp add: designated_scene_def doc_second_scene_def)
  have d2: "designated_scene doc_bone_root = Inr (Some \<lparr>nodes = Some [1], extras = None\<rparr>)"
    by (simp add: designated_scene_def doc_bone_root_def default_pyscene_def py_index_def)
  obtain r1 lg1 e1 where run1: "create host_ok doc_second_scene ([], env_two_roots) = (r1, (lg1, e1))"
    by (metis prod.exhaust)
  have "fst (create host_ok doc_second_scene ([], env_two_roots)) = Inr ()"
    by code_simp
  with run1 have ok1: "r1 = Inr ()" by simp
  obtain r2 lg2 e2 where run2: "create host_ok doc_bone_root ([], env_armature) = (r2, (lg2, e2))"
    by (metis prod.exhaust)
  have "fst (create host_ok doc_bone_root ([], env_armature)) = Inr ()"
    by code_simp
  with run2 have ok2: "r2 = Inr ()" by simp
  from scene_hooks_follow_default_scene[OF d1 run1] ok1
  have h1: "filter hook_event lg1 = scene_hook_events None" by auto
  from scene_hooks_follow_default_scene[OF d2 run2] ok2
  have h2: "filter hook_event lg2 = scene_hook_events (Some \<lparr>nodes = Some [1], extras = None\<rparr>)"
    by auto
  from h1 h2 run1 run2 show ?thesis
    by (simp add: scene_hook_events_def)
qed

section \<open>The render engine\<close>

lemma keepsD: "keeps Q m \<Longrightarrow> Q (snd w) \<Longrightarrow> Q (snd (snd (m w)))"
  unfolding keeps_def by blast

lemma keeps_ret: "keeps Q (ret x)"
  by (simp add: keeps_def ret_def)

lemma keeps_raise: "keeps Q (raise err)"
  by (simp add: keeps_def raise_def)

lemma keeps_lift: "keeps Q (lift r)"
  by (simp add: keeps_def lift_def)

lemma keeps_get_env: "keeps Q get_env"
  by (simp add: keeps_def get_env_def)

lemma keeps_emit: "keeps Q (emit ev)"
  by (simp add: keeps_def emit_def)

lemma keeps_modify: "(\<And>s. Q s \<Longrightarrow> Q (f s)) \<Longrightarrow> keeps Q (modify f)"
  by (simp add: keeps_def modify_def)

lemma keeps_bind:
  assumes "keeps Q m" and "\<And>x. keeps Q (f x)"
  shows "keeps Q (bind m f)"
  unfolding keeps_def
proof (intro allI impI)
  fix w :: world
  assume q: "Q (snd w)"
  obtain r w' where mw: "m w = (r, w')" by (cases "m w")
  from keepsD[OF assms(1) q] mw have q': "Q (snd w')" by simp
  show "Q (snd (snd (bind m f w)))"
  proof (cases r)
    case (Inl err)
    with mw q' show ?thesis by (simp add: bind_def)
  next
    case (Inr x)
    with mw keepsD[OF assms(2)[of x] q'] show ?thesis by (simp add: bind_def)
  qed
qed

lemma keeps_seq: "keeps Q m \<Longrightarrow> keeps Q n \<Longrightarrow> keeps Q (seq m n)"
  unfolding seq_def by (rule keeps_bind)

lemma keeps_if: "keeps Q m \<Longrightarrow> keeps Q n \<Longrightarrow> keeps Q (if c then m else n)"
  by simp

lemma keeps_case_option:
  "keeps Q n \<Longrightarrow> (\<And>x. keeps Q (f x)) \<Longrightarrow> keeps Q (case r of None \<Rightarrow> n | Some x \<Rightarrow> f x)"
  by (cases r) simp_all

lemma keeps_prim: "(\<And>s. Q s \<Longrightarrow> Q (f s)) \<Longrightarrow> keeps Q (prim c f)"
  unfolding prim_def by (intro keeps_seq keeps_emit keeps_modify)

lemma keeps_static_method: "keeps Q body \<Longrightarrow> keeps Q (static_method c body)"
  unfolding static_method_def by (intro keeps_seq keeps_emit)

lemma keeps_call_ext:
  assumes "\<And>s. Q s \<Longrightarrow> Q (snd (ext h c s))"
  shows "keeps Q (call_ext h c)"
  unfolding keeps_def
proof (intro allI impI)
  fix w :: world
  assume "Q (snd w)"
  from assms[OF this] show "Q (snd (snd (call_ext h c w)))"
    by (cases "ext h c (snd w)") (auto simp: call_ext_def split: option.splits)
qed

lemma keeps_gather:
  assumes "\<And>s. Q s \<Longrightarrow> Q (snd (animations_hook h opts s))"
  shows "keeps Q (gather_import_animations h opts)"
  unfolding keeps_def
proof (intro allI impI)
  fix w :: world
  assume "Q (snd w)"
  from assms[OF this] show "Q (snd (snd (gather_import_animations h opts w)))"
    by (cases "animations_hook h opts (snd w)")
       (auto simp: gather_import_animations_def split: sum.splits)
qed

lemmas keeps_rules =
  keeps_bind keeps_seq keeps_if keeps_case_option keeps_ret keeps_raise keeps_lift
  keeps_get_env keeps_emit keeps_static_method

lemma keeps_anim_loop:
  assumes "\<And>c. keeps Q (call_ext h c)"
  shows "keeps Q (anim_loop h idxs)"
  by (induction idxs) (simp_all add: keeps_ret keeps_seq assms)

lemma keeps_create_animations:
  assumes "\<And>c. keeps Q (call_ext h c)" and "\<And>opts. keeps Q (gather_import_animations h opts)"
  shows "keeps Q (create_animations h d)"
proof -
  have "keeps Q (layer_animations h d opts)" for opts
    unfolding layer_animations_def
    by (cases "animations d") (auto intro!: keeps_rules keeps_anim_loop assms)
  then show ?thesis
    unfolding create_animations_def by (intro keeps_rules assms)
qed

lemma keeps_select_loop:
  assumes "\<And>ob s. Q s \<Longrightarrow> Q (s\<lparr>selected := ob\<rparr>)"
  shows "keeps Q (select_loop vs)"
proof (induction vs)
  case Nil
  show ?case by (simp add: keeps_ret)
next
  case (Cons v vs)
  then show ?case
    by (auto intro!: keeps_rules keeps_prim assms split: option.splits)
qed

lemma keeps_select_imported_objects:
  assumes "\<And>ob s. Q s \<Longrightarrow> Q (s\<lparr>selected := ob\<rparr>)"
  shows "keeps Q select_imported_objects"
  unfolding select_imported_objects_def
  by (intro keeps_rules keeps_prim keeps_select_loop assms)

lemma keeps_set_active_object:
  assumes "\<And>ob s. Q s \<Longrightarrow> Q (s\<lparr>active := ob\<rparr>)"
  shows "keeps Q (set_active_object d)"
  unfolding set_active_object_def
  by (intro keeps_rules keeps_prim assms)

lemma keeps_scene_hook:
  assumes "\<And>c. keeps Q (call_ext h c)"
  shows "keeps Q (scene_hook h d name)"
  unfolding scene_hook_def
  by (intro keeps_rules assms)

lemma keeps_after_modify3:
  assumes "keeps Q n" and "Q (f3 (f2 (f1 e)))"
  shows "Q (snd (snd (seq (modify f1) (seq (modify f2) (seq (modify f3) n)) (lg, e))))"
  using keepsD[OF assms(1), of "(lg, f3 (f2 (f1 e)))"] assms(2)
  by (simp add: seq_def bind_def modify_def)

lemma create_keeps_scene:
  assumes "host_keeps_scene h"
  shows "scene_is (if render_engine e \<in> {''CYCLES'', ''BLENDER_EEVEE''} then render_engine e
                   else ''BLENDER_EEVEE'') (scene_settings e) (scene_name e)
           (snd (snd (create h d (lg, e))))"
    (is "?Q (snd (snd (create h d (lg, e))))")
proof -
  have c: "keeps ?Q (call_ext h c)" for c
    using assms by (intro keeps_call_ext) (simp add: host_keeps_scene_def)
  have g: "keeps ?Q (gather_import_animations h opts)" for opts
    using assms by (intro keeps_gather) (simp add: host_keeps_scene_def)
  show ?thesis
    unfolding create_def
    by (rule keeps_after_modify3)
       (intro keeps_rules keeps_modify keeps_scene_hook keeps_create_animations
          keeps_select_imported_objects keeps_set_active_object c g,
        simp_all add: scene_is_def)
qed

text \<open>
  Claim C10. \<^verbatim>\<open>create\<close> overwrites the render engine of the host scene with
  \<^verbatim>\<open>BLENDER_EEVEE\<close> when it is neither \<^verbatim>\<open>CYCLES\<close> nor \<^verbatim>\<open>BLENDER_EEVEE\<close> at the start, and
  leaves it as it is otherwise; this file writes to no other setting of the scene.
  So, with collaborators that leave the scene's settings alone, after an import
  (whether it returns or raises) the render engine is one of the two values and the
  other settings are as before.
\<close>

theorem create_render_engine:
  assumes "host_keeps_scene h"
    and "create h d (lg, e) = (r, (lg', e'))"
  shows "render_engine e' =
           (if render_engine e \<in> {''CYCLES'', ''BLENDER_EEVEE''} then render_engine e
            else ''BLENDER_EEVEE'') \<and>
         render_engine e' \<in> {''CYCLES'', ''BLENDER_EEVEE''} \<and>
         scene_settings e' = scene_settings e \<and> scene_name e' = scene_name e"
  using create_keeps_scene[OF assms(1), of e d lg] assms(2)
  by (auto simp: scene_is_def)

theorem create_render_engine_witness:
  "render_engine env_armature = ''BLENDER_WORKBENCH'' \<and>
   render_engine (snd (snd (create host_ok doc_bone_root ([], env_armature)))) = ''BLENDER_EEVEE'' \<and>
   scene_settings (snd (snd (create host_ok doc_bone_root ([], env_armature)))) =
     scene_settings env_armature"
proof -
  have k: "host_keeps_scene host_ok"
    by (simp add: host_keeps_scene_def host_ok_def)
  obtain r lg' e' where run: "create host_ok doc_bone_root ([], env_armature) = (r, (lg', e'))"
    by (metis prod.exhaust)
  have e: "render_engine env_armature = ''BLENDER_WORKBENCH''"
    by (simp add: env_armature_def env0_def)
  from create_render_engine[OF k run] e run show ?thesis
    by simp
qed

end
